theory Spec2Isabelle
  imports Main "HOL-Library.Sublist" "HOL-Library.Multiset"
begin

section \<open>JavaScript values used by the sources\<close>

text \<open>
  Strings are \<open>string\<close>. \<open>s.startsWith(p)\<close> is \<open>prefix p s\<close> and
  \<open>s.endsWith(p)\<close> is \<open>suffix p s\<close>. A JavaScript \<open>Map\<close> keeps its keys in
  insertion order and \<open>set\<close> on a present key replaces the value in place; it is an
  association list updated by \<open>map_set\<close> and read by \<open>map_of\<close>. A \<open>Set\<close> is a
  list in insertion order to which \<open>set_add\<close> appends only new elements.
\<close>

datatype js_error = ReferenceError | TypeError

type_synonym 'v jsmap = "(string \<times> 'v) list"
type_synonym jsset = "string list"

fun map_set :: "string \<Rightarrow> 'v \<Rightarrow> 'v jsmap \<Rightarrow> 'v jsmap" where
  "map_set k v [] = [(k, v)]"
| "map_set k v ((k', v') # m) =
     (if k' = k then (k, v) # m else (k', v') # map_set k v m)"

definition map_has :: "'v jsmap \<Rightarrow> string \<Rightarrow> bool" where
  "map_has m k = (map_of m k \<noteq> None)"

definition set_add :: "string \<Rightarrow> jsset \<Rightarrow> jsset" where
  "set_add x s = (if x \<in> set s then s else s @ [x])"

text \<open>\<open>const norm = (p) => p.replace(/\\/g, '/')\<close>: every backslash becomes a slash.\<close>

definition norm :: "string \<Rightarrow> string" where
  "norm p = map (\<lambda>c. if c = CHR 0x5C then CHR ''/'' else c) p"

section \<open>Node's path module\<close>

text \<open>
  The dependency graph calls the platform's \<open>path.dirname\<close>, \<open>path.basename\<close>,
  \<open>path.resolve\<close> and \<open>path.join\<close>. They belong to Node, not to this repository, so
  the graph operations take them as a parameter and the theorems about the graph hold
  for every such quadruple.
\<close>

record path_api =
  p_dirname :: "string \<Rightarrow> string"
  p_basename :: "string \<Rightarrow> string"
  p_resolve :: "string list \<Rightarrow> string"
  p_join :: "string list \<Rightarrow> string"

text \<open>
  A model of \<open>path.posix\<close>, after Node's \<open>lib/path.js\<close>, for the alias resolver (which
  calls \<open>path.posix.join\<close> by name) and for concrete runs of the graph. \<open>splitOn\<close> is
  \<open>String.prototype.split\<close> with a one-character separator, \<open>joinWith\<close> is
  \<open>Array.prototype.join\<close>, and \<open>normalizeSegments\<close> is \<open>normalizeString\<close> working on
  the segments between slashes.
\<close>

fun splitOn :: "char \<Rightarrow> string \<Rightarrow> string list" where
  "splitOn sep [] = [[]]"
| "splitOn sep (c # cs) =
     (if c = sep then [] # splitOn sep cs
      else (case splitOn sep cs of [] \<Rightarrow> [[c]] | w # ws \<Rightarrow> (c # w) # ws))"

fun joinWith :: "string \<Rightarrow> string list \<Rightarrow> string" where
  "joinWith sep [] = []"
| "joinWith sep [x] = x"
| "joinWith sep (x # y # ys) = x @ sep @ joinWith sep (y # ys)"

fun normalizeSegments :: "bool \<Rightarrow> string list \<Rightarrow> string list \<Rightarrow> string list" where
  "normalizeSegments allowAboveRoot res [] = res"
| "normalizeSegments allowAboveRoot res (s # ss) =
     (if s = [] \<or> s = ''.'' then normalizeSegments allowAboveRoot res ss
      else if s = ''..'' then
        (if res \<noteq> [] \<and> last res \<noteq> ''..''
           then normalizeSegments allowAboveRoot (butlast res) ss
         else if allowAboveRoot
           then normalizeSegments allowAboveRoot (res @ [''..'']) ss
         else normalizeSegments allowAboveRoot res ss)
      else normalizeSegments allowAboveRoot (res @ [s]) ss)"

definition posix_normalize :: "string \<Rightarrow> string" where
  "posix_normalize p =
     (if p = [] then ''.''
      else
        let isAbsolute = (hd p = CHR ''/'');
            trailingSeparator = (last p = CHR ''/'');
            q = joinWith ''/'' (normalizeSegments (\<not> isAbsolute) [] (splitOn CHR ''/'' p))
        in if q = [] then (if isAbsolute then ''/'' else if trailingSeparator then ''./'' else ''.'')
           else (if isAbsolute then ''/'' else []) @ q @ (if trailingSeparator then ''/'' else []))"

definition posix_join :: "string list \<Rightarrow> string" where
  "posix_join args =
     (let parts = filter (\<lambda>a. a \<noteq> []) args
      in if parts = [] then ''.'' else posix_normalize (joinWith ''/'' parts))"

text \<open>
  \<open>resolve\<close> walks its arguments from the right, then the working directory, until the
  path built so far is absolute.
\<close>

fun resolveFrom :: "string list \<Rightarrow> string \<Rightarrow> string" where
  "resolveFrom [] resolvedPath = resolvedPath"
| "resolveFrom (p # ps) resolvedPath =
     (if p = [] then resolveFrom ps resolvedPath
      else if hd p = CHR ''/'' then p @ ''/'' @ resolvedPath
      else resolveFrom ps (p @ ''/'' @ resolvedPath))"

definition posix_resolve :: "string \<Rightarrow> string list \<Rightarrow> string" where
  "posix_resolve cwd args =
     (let resolvedPath = resolveFrom (rev args @ [cwd]) [];
          resolvedAbsolute = (resolvedPath \<noteq> [] \<and> hd resolvedPath = CHR ''/'');
          q = joinWith ''/''
                (normalizeSegments (\<not> resolvedAbsolute) [] (splitOn CHR ''/'' resolvedPath))
      in if resolvedAbsolute then ''/'' @ q else if q = [] then ''.'' else q)"

definition posix_dirname :: "string \<Rightarrow> string" where
  "posix_dirname p =
     (if p = [] then ''.''
      else
        let hasRoot = (hd p = CHR ''/'');
            afterSlashes = dropWhile (\<lambda>c. c = CHR ''/'') (rev (tl p));
            upToSlash = dropWhile (\<lambda>c. c \<noteq> CHR ''/'') afterSlashes;
            end = length upToSlash
        in if upToSlash = [] then (if hasRoot then ''/'' else ''.'')
           else if hasRoot \<and> end = 1 then ''//''
           else take end p)"

definition posix_basename :: "string \<Rightarrow> string" where
  "posix_basename p =
     rev (takeWhile (\<lambda>c. c \<noteq> CHR ''/'') (dropWhile (\<lambda>c. c = CHR ''/'') (rev p)))"

definition posix_api :: "string \<Rightarrow> path_api" where
  "posix_api cwd =
     \<lparr> p_dirname = posix_dirname, p_basename = posix_basename,
       p_resolve = posix_resolve cwd, p_join = posix_join \<rparr>"

section \<open>path-hierarchy-resolver.ts\<close>

text \<open>
  The resolver's \<open>DtsEntryPoint\<close> interface; an optional field is an \<open>option\<close>.
\<close>

record ResolverEntryPoint =
  ep_alias :: string
  ep_inputFile :: string
  ep_dtsFile :: "string option"
  ep_aliasSegments :: "string list"
  ep_targetSegments :: "string list"
  ep_relativePath :: "string option"
  ep_parentAlias :: "string option"

text \<open>
  \<open>PathNode\<close> objects refer to each other (\<open>children\<close>, \<open>parent\<close>) and are mutated
  after they have been linked, so they live in a table, the sorted \<open>nodes\<close> array of
  \<open>buildHierarchy\<close>, and a reference is an index into it.
\<close>

record PathNode =
  pn_alias :: string
  pn_segments :: "string list"
  pn_children :: "nat list"
  pn_parent :: "nat option"
  pn_dtsFile :: "string option"

fun findCommonPrefix :: "string list \<Rightarrow> string list \<Rightarrow> string list" where
  "findCommonPrefix (x # xs) (y # ys) = (if x = y then x # findCommonPrefix xs ys else [])"
| "findCommonPrefix _ _ = []"

definition mkPathNode :: "ResolverEntryPoint \<Rightarrow> PathNode" where
  "mkPathNode ep =
     \<lparr> pn_alias = ep_alias ep, pn_segments = ep_aliasSegments ep, pn_children = [],
       pn_parent = None, pn_dtsFile = ep_dtsFile ep \<rparr>"

text \<open>One round of the inner loop \<open>for (let j = 0; j < i; j++)\<close>.\<close>

definition bestParentStep ::
  "PathNode list \<Rightarrow> PathNode \<Rightarrow> nat \<Rightarrow> nat option \<times> nat \<Rightarrow> nat option \<times> nat" where
  "bestParentStep nodes current j acc =
     (let candidate = nodes ! j;
          commonPrefix = findCommonPrefix (pn_segments current) (pn_segments candidate)
      in if length commonPrefix = length (pn_segments candidate)
            \<and> length commonPrefix > snd acc
            \<and> length commonPrefix < length (pn_segments current)
         then (Some j, length commonPrefix) else acc)"

text \<open>One round of the outer loop: find the best parent of \<open>nodes[i]\<close> and link the two.\<close>

definition attachNode :: "nat \<Rightarrow> PathNode list \<Rightarrow> PathNode list" where
  "attachNode i nodes =
     (case fst (fold (bestParentStep nodes (nodes ! i)) [0..<i] (None, 0)) of
        None \<Rightarrow> nodes
      | Some b \<Rightarrow>
          let linked = nodes[i := (nodes ! i)\<lparr>pn_parent := Some b\<rparr>]
          in linked[b := (linked ! b)\<lparr>pn_children := pn_children (linked ! b) @ [i]\<rparr>])"

text \<open>
  \<open>buildHierarchy\<close> returns the root nodes; here the table comes with them.
  \<open>Array.prototype.sort\<close> is stable, as \<open>sort_key\<close> is.
\<close>

definition buildHierarchy :: "ResolverEntryPoint list \<Rightarrow> PathNode list \<times> nat list" where
  "buildHierarchy entryPoints =
     (let sorted = sort_key (\<lambda>n. length (pn_segments n)) (map mkPathNode entryPoints);
          nodes = fold attachNode [0..<length sorted] sorted
      in (nodes, filter (\<lambda>i. pn_parent (nodes ! i) = None) [0..<length nodes]))"

text \<open>
  \<open>processNode\<close> recurses through the children. On a table whose links form a cycle the
  recursion would not end, so the function takes fuel and \<open>None\<close> means it ran out.
\<close>

fun processNode ::
  "nat \<Rightarrow> ResolverEntryPoint list \<Rightarrow> PathNode list \<Rightarrow> nat \<Rightarrow> string
     \<Rightarrow> ResolverEntryPoint list \<Rightarrow> ResolverEntryPoint list option" where
  "processNode 0 entryPoints nodes i parentRelativePath result = None"
| "processNode (Suc fuel) entryPoints nodes i parentRelativePath result =
     (let node = nodes ! i;
          relativePath =
            (case pn_parent node of
               Some p \<Rightarrow>
                 let remainingSegments = drop (length (pn_segments (nodes ! p))) (pn_segments node)
                 in if remainingSegments \<noteq> []
                    then posix_join (parentRelativePath # remainingSegments)
                    else if parentRelativePath = [] then ''.'' else parentRelativePath
             | None \<Rightarrow> ''.'');
          parentAlias =
            (case pn_parent node of Some p \<Rightarrow> Some (pn_alias (nodes ! p)) | None \<Rightarrow> None);
          result' =
            (case find (\<lambda>ep. ep_alias ep = pn_alias node) entryPoints of
               Some original \<Rightarrow>
                 result @ [original\<lparr>
                   ep_relativePath :=
                     Some (if prefix ''.'' relativePath then relativePath
                           else ''./'' @ relativePath),
                   ep_parentAlias := parentAlias\<rparr>]
             | None \<Rightarrow> result)
      in fold (\<lambda>child r. case r of
                  None \<Rightarrow> None
                | Some res \<Rightarrow> processNode fuel entryPoints nodes child relativePath res)
           (pn_children node) (Some result'))"

definition calculateRelativePaths ::
  "nat \<Rightarrow> ResolverEntryPoint list \<Rightarrow> ResolverEntryPoint list option" where
  "calculateRelativePaths fuel entryPoints =
     (let hierarchy = buildHierarchy entryPoints
      in fold (\<lambda>root r. case r of
                  None \<Rightarrow> None
                | Some res \<Rightarrow> processNode fuel entryPoints (fst hierarchy) root [] res)
           (snd hierarchy) (Some []))"

text \<open>
  The branch of \<open>getDtsEntryPoints\<close> for an alias without a wildcard: the entry made
  from one line \<open>alias: [target]\<close> of the \<open>paths\<close> option. \<open>segmentsOf\<close> is
  \<open>split('/').filter(s => s)\<close> and \<open>tsToDts\<close> is \<open>replace(/\.ts$/, '.d.ts')\<close>.
\<close>

definition segmentsOf :: "string \<Rightarrow> string list" where
  "segmentsOf s = filter (\<lambda>x. x \<noteq> []) (splitOn CHR ''/'' s)"

definition tsToDts :: "string \<Rightarrow> string" where
  "tsToDts s = (if suffix ''.ts'' s then take (length s - 3) s @ ''.d.ts'' else s)"

definition exactAliasEntry :: "path_api \<Rightarrow> string \<Rightarrow> string \<Rightarrow> string \<Rightarrow> ResolverEntryPoint" where
  "exactAliasEntry P outDir als target0 =
     (let target = norm target0
      in \<lparr> ep_alias = als, ep_inputFile = target,
           ep_dtsFile = Some (norm (p_resolve P [outDir, tsToDts target])),
           ep_aliasSegments = segmentsOf als, ep_targetSegments = segmentsOf target,
           ep_relativePath = None, ep_parentAlias = None \<rparr>)"

text \<open>The entries of the alias set \<open>{"@pkg/a": "src/a", "@pkg/a/sub": "src/a/sub"}\<close>.\<close>

definition pkgAliasEntries :: "path_api \<Rightarrow> string \<Rightarrow> ResolverEntryPoint list" where
  "pkgAliasEntries P outDir =
     [exactAliasEntry P outDir ''@pkg/a'' ''src/a'',
      exactAliasEntry P outDir ''@pkg/a/sub'' ''src/a/sub'']"

section \<open>dependency-graph.ts\<close>

subsection \<open>Data\<close>

text \<open>
  The graph takes its entry points as \<open>config-manager.ts\<close> declares them:
  \<open>export interface DtsEntryPoint { alias: string; dtsFile: string; }\<close>.
\<close>

record DtsEntryPoint =
  "alias" :: string
  dtsFile :: string

text \<open>
  A declaration file as the graph reads it through the TypeScript API. A node carries
  what the code asks of it and its children in the order of \<open>ts.forEachChild\<close>:
  \<^item> \<open>ImportDeclaration spec bindings\<close>: \<open>spec\<close> is the text of the module specifier
    when it is a string literal; \<open>bindings\<close> are the clause's named bindings;
  \<^item> \<open>ExportDeclaration spec names\<close>: \<open>names\<close> are the element names when the export
    clause is a \<open>NamedExports\<close>;
  \<^item> \<open>ImportTypeNode spec qualifier\<close>: the literal argument and the qualifier when it
    is an identifier;
  \<^item> \<open>Declaration kind exported name\<close>: one of the six statement kinds of
    \<open>isExportedDeclaration\<close>, whether it has the \<open>export\<close> modifier, and the name that
    \<open>getDeclarationName\<close> reads;
  \<^item> \<open>OtherNode\<close>: any other syntax.
\<close>

datatype import_bindings = NoBindings | NamedImports "string list" | NamespaceImport string

datatype decl_kind =
  VariableStatement | FunctionDeclaration | ClassDeclaration
  | InterfaceDeclaration | TypeAliasDeclaration | EnumDeclaration

datatype node_info =
    ImportDeclaration "string option" import_bindings
  | ExportDeclaration "string option" "string list option"
  | ImportTypeNode "string option" "string option"
  | Declaration decl_kind bool "string option"
  | OtherNode

datatype ts_node = TsNode node_info "ts_node list"

record source_file =
  sf_fileName :: string
  sf_statements :: "ts_node list"

text \<open>
  The fields of \<open>DependencyGraph\<close>. \<open>program\<close> is the TypeScript front end's and is
  represented by the source files it returns; \<open>cycles\<close> is written by \<open>detectCycles\<close>
  and read by \<open>getCycles\<close> only, neither of which is modelled.
\<close>

record graph =
  nodes :: "string list"
  edges :: "jsset jsmap"
  specifierToDts :: "string jsmap"
  exportedTypes :: "jsset jsmap"
  importedTypes :: "jsset jsmap jsmap"
  entryRoots :: "string jsmap"
  sourceFileCache :: "source_file jsmap"

subsection \<open>buildSpecifierMap\<close>

text \<open>\<open>alias.replace(/\*+$/, '').replace(/\/+$/, '')\<close>\<close>

definition stripTrailing :: "char \<Rightarrow> string \<Rightarrow> string" where
  "stripTrailing c s = rev (dropWhile (\<lambda>x. x = c) (rev s))"

definition cleanAlias :: "string \<Rightarrow> string" where
  "cleanAlias a = stripTrailing CHR ''/'' (stripTrailing CHR ''*'' a)"

text \<open>The body of the loop over the entry points, on the map built so far.\<close>

definition registerEntry ::
  "path_api \<Rightarrow> graph \<Rightarrow> DtsEntryPoint \<Rightarrow> string jsmap \<Rightarrow> string jsmap" where
  "registerEntry P G ep m =
     (if alias ep = [] then m
      else
        let file = norm (dtsFile ep)
        in if map_has (sourceFileCache G) file then
             let m1 = map_set (alias ep) file m;
                 cleaned = cleanAlias (alias ep);
                 m2 = (if cleaned \<noteq> [] \<and> cleaned \<noteq> alias ep
                       then map_set cleaned file m1 else m1)
             in if p_basename P file = ''index.d.ts'' then map_set cleaned file m2 else m2
           else m)"

definition buildSpecifierMap :: "path_api \<Rightarrow> graph \<Rightarrow> DtsEntryPoint list \<Rightarrow> graph" where
  "buildSpecifierMap P G entryPoints =
     G\<lparr>specifierToDts := fold (registerEntry P G) entryPoints []\<rparr>"

subsection \<open>Files reachable from an entry\<close>

definition getSourceFile :: "graph \<Rightarrow> string \<Rightarrow> source_file option" where
  "getSourceFile G filePath = map_of (sourceFileCache G) (norm filePath)"

text \<open>
  \<open>findImportsAndExports\<close> calls its callback on the non-empty specifier of each
  top-level child; here it returns the specifiers in the order of the calls.
\<close>

fun nodeSpecifier :: "ts_node \<Rightarrow> string option" where
  "nodeSpecifier (TsNode (ImportDeclaration spec _) _) = spec"
| "nodeSpecifier (TsNode (ExportDeclaration spec _) _) = spec"
| "nodeSpecifier (TsNode (ImportTypeNode spec _) _) = spec"
| "nodeSpecifier (TsNode _ _) = None"

definition findImportsAndExports :: "source_file \<Rightarrow> string list" where
  "findImportsAndExports sourceFile =
     concat (map (\<lambda>n. case nodeSpecifier n of
                         Some spec \<Rightarrow> if spec \<noteq> [] then [spec] else []
                       | None \<Rightarrow> [])
                 (sf_statements sourceFile))"

text \<open>The loop over the nested aliases, on the entries of \<open>specifierToDts\<close> left to try.\<close>

fun nestedAliasFile :: "path_api \<Rightarrow> graph \<Rightarrow> string \<Rightarrow> string jsmap \<Rightarrow> string option" where
  "nestedAliasFile P G spec [] = None"
| "nestedAliasFile P G spec ((als, target) # rest) =
     (if prefix (als @ ''/'') spec then
        let remaining = drop (length als + 1) spec;
            baseDir = p_dirname P target;
            candidate = p_join P [baseDir, remaining @ ''.d.ts''];
            barrelCandidate = p_join P [baseDir, remaining, ''index.d.ts''];
            dirBarrel = p_join P [baseDir, remaining, ''index.d.ts'']
        in if map_has (sourceFileCache G) candidate then Some candidate
           else if map_has (sourceFileCache G) barrelCandidate then Some barrelCandidate
           else if map_has (sourceFileCache G) dirBarrel then Some dirBarrel
           else nestedAliasFile P G spec rest
      else nestedAliasFile P G spec rest)"

definition resolveSpecifierToFile ::
  "path_api \<Rightarrow> graph \<Rightarrow> string \<Rightarrow> string \<Rightarrow> string option" where
  "resolveSpecifierToFile P G fromFile spec =
     (if prefix ''.'' spec then
        let base = norm (p_resolve P [p_dirname P fromFile, spec])
        in if map_has (sourceFileCache G) base then Some base
           else
             (case find (map_has (sourceFileCache G))
                     (map (\<lambda>ext. base @ ext) [''.d.ts'', ''.d.mts'', ''.mjs'', ''.js'', ''.ts''])
              of Some candidate \<Rightarrow> Some candidate
               | None \<Rightarrow>
                   find (map_has (sourceFileCache G))
                     [norm (p_join P [base, ''index.d.ts'']),
                      norm (p_join P [base, ''index.d.mts'']),
                      norm (p_join P [base, ''index.mjs''])])
      else
        (case map_of (specifierToDts G) spec of
           Some target \<Rightarrow>
             if map_has (sourceFileCache G) target then Some target
             else nestedAliasFile P G spec (specifierToDts G)
         | None \<Rightarrow> nestedAliasFile P G spec (specifierToDts G)))"

text \<open>The callback of \<open>findAllDtsFilesFromEntry\<close>: push what the specifier resolves to.\<close>

definition pushResolved ::
  "path_api \<Rightarrow> graph \<Rightarrow> string \<Rightarrow> jsset \<Rightarrow> string \<Rightarrow> string list \<Rightarrow> string list" where
  "pushResolved P G normalizedFile seen spec queue =
     (case resolveSpecifierToFile P G normalizedFile spec of
        Some resolved \<Rightarrow>
          if resolved \<noteq> [] \<and> resolved \<notin> set seen then queue @ [resolved] else queue
      | None \<Rightarrow> queue)"

text \<open>
  The \<open>while (queue.length)\<close> loop; \<open>queue.pop()\<close> takes the last element. The three
  \<open>continue\<close> statements are the three branches that drop the file.
\<close>

function findAllLoop ::
  "path_api \<Rightarrow> graph \<Rightarrow> string \<Rightarrow> jsset \<Rightarrow> string list \<Rightarrow> jsset" where
  "findAllLoop P G root seen queue =
     (if queue = [] then seen
      else
        let normalizedFile = norm (last queue)
        in if normalizedFile \<in> set seen then findAllLoop P G root seen (butlast queue)
           else
             (case getSourceFile G normalizedFile of
                None \<Rightarrow> findAllLoop P G root seen (butlast queue)
              | Some sf \<Rightarrow>
                  if \<not> (suffix ''.d.ts'' normalizedFile \<or> suffix ''.d.mts'' normalizedFile)
                    then findAllLoop P G root seen (butlast queue)
                  else if \<not> prefix root normalizedFile
                    then findAllLoop P G root seen (butlast queue)
                  else
                    findAllLoop P G root (seen @ [normalizedFile])
                      (fold (pushResolved P G normalizedFile (seen @ [normalizedFile]))
                         (findImportsAndExports sf) (butlast queue))))"
  by pat_completeness auto

termination findAllLoop
proof (relation "measures
    [\<lambda>(P, G, root, seen, queue). card (fst ` set (sourceFileCache G) - set seen),
     \<lambda>(P, G, root, seen, queue). length queue]")
  show "wf (measures
    [\<lambda>(P, G, root, seen, queue). card (fst ` set (sourceFileCache G) - set seen),
     \<lambda>(P, G, root, seen, queue). length queue])"
    by simp
next
  fix P :: path_api and G :: graph and root :: string and seen queue :: "string list"
    and x :: string and x2 :: source_file
  assume q: "queue \<noteq> []" and x: "x = norm (last queue)" and ns: "x \<notin> set seen"
    and sf: "getSourceFile G x = Some x2"
  have "norm x = x"
    using x by (simp add: norm_def)
  then have "map_of (sourceFileCache G) x = Some x2"
    using sf by (simp add: getSourceFile_def)
  then have "(x, x2) \<in> set (sourceFileCache G)"
    by (rule map_of_SomeD)
  then have "x \<in> fst ` set (sourceFileCache G)"
    by force
  then have mem: "x \<in> fst ` set (sourceFileCache G) - set seen"
    using ns by simp
  have fin: "finite (fst ` set (sourceFileCache G) - set seen)"
    by simp
  have eq: "fst ` set (sourceFileCache G) - set (seen @ [x])
      = (fst ` set (sourceFileCache G) - set seen) - {x}"
    by auto
  have "card (fst ` set (sourceFileCache G) - set (seen @ [x]))
      < card (fst ` set (sourceFileCache G) - set seen)"
    unfolding eq by (rule card_Diff1_less[OF fin mem])
  then show "((P, G, root, seen @ [x],
       fold (pushResolved P G x (seen @ [x])) (findImportsAndExports x2) (butlast queue)),
      P, G, root, seen, queue)
    \<in> measures
        [\<lambda>(P, G, root, seen, queue). card (fst ` set (sourceFileCache G) - set seen),
         \<lambda>(P, G, root, seen, queue). length queue]"
    by simp
qed (auto)

declare findAllLoop.simps [simp del]

text \<open>
  \<open>this.entryRoots.get(entry)!\<close> is \<open>undefined\<close> for a file that is no entry, and
  \<open>startsWith(undefined)\<close> compares with the string \<open>undefined\<close>.
\<close>

definition findAllDtsFilesFromEntry :: "path_api \<Rightarrow> graph \<Rightarrow> string \<Rightarrow> string list" where
  "findAllDtsFilesFromEntry P G entry =
     (let root = (case map_of (entryRoots G) entry of Some r \<Rightarrow> r | None \<Rightarrow> ''undefined'')
      in findAllLoop P G root [] [entry])"

subsection \<open>Symbols of an entry\<close>

text \<open>
  \<open>if (!imported.has(spec)) imported.set(spec, new Set())\<close> followed by the
  \<open>add\<close> of each name to \<open>imported.get(spec)\<close>.
\<close>

definition addSymbols :: "string \<Rightarrow> string list \<Rightarrow> jsset jsmap \<Rightarrow> jsset jsmap" where
  "addSymbols spec names imported =
     map_set spec
       (fold set_add names (case map_of imported spec of Some syms \<Rightarrow> syms | None \<Rightarrow> []))
       imported"

text \<open>
  What \<open>visit\<close> does at one node before it descends. The name of an exported
  declaration is added when \<open>getDeclarationName\<close> returns a non-empty string
  (\<open>name || null\<close>, then \<open>if (name)\<close>).
\<close>

fun visitInfo :: "node_info \<Rightarrow> jsset jsmap \<times> jsset \<Rightarrow> jsset jsmap \<times> jsset" where
  "visitInfo (ImportDeclaration (Some spec) bindings) (imported, exported) =
     (addSymbols spec
        (case bindings of
           NoBindings \<Rightarrow> []
         | NamedImports names \<Rightarrow> names
         | NamespaceImport name \<Rightarrow> [name]) imported, exported)"
| "visitInfo (ExportDeclaration (Some spec) clause) (imported, exported) =
     (addSymbols spec (case clause of Some names \<Rightarrow> names | None \<Rightarrow> []) imported, exported)"
| "visitInfo (ImportTypeNode (Some spec) qualifier) (imported, exported) =
     (addSymbols spec (case qualifier of Some name \<Rightarrow> [name] | None \<Rightarrow> []) imported, exported)"
| "visitInfo (Declaration kind isExported name) (imported, exported) =
     (imported,
      if isExported then
        (case name of
           Some n \<Rightarrow> if n \<noteq> [] then set_add n exported else exported
         | None \<Rightarrow> exported)
      else exported)"
| "visitInfo _ st = st"

fun visit :: "ts_node \<Rightarrow> jsset jsmap \<times> jsset \<Rightarrow> jsset jsmap \<times> jsset" where
  "visit (TsNode info children) st = fold visit children (visitInfo info st)"

definition extractTypesFromSourceFile ::
  "source_file \<Rightarrow> jsset jsmap \<times> jsset \<Rightarrow> jsset jsmap \<times> jsset" where
  "extractTypesFromSourceFile sf st = fold visit (sf_statements sf) st"

definition collectTypesForEntry :: "path_api \<Rightarrow> string \<Rightarrow> graph \<Rightarrow> graph" where
  "collectTypesForEntry P entry G =
     (let allFiles = findAllDtsFilesFromEntry P G entry;
          collected =
            fold (\<lambda>file st. case getSourceFile G file of
                               None \<Rightarrow> st
                             | Some sf \<Rightarrow> extractTypesFromSourceFile sf st)
              allFiles ([], [])
      in G\<lparr>exportedTypes := map_set entry (snd collected) (exportedTypes G),
           importedTypes := map_set entry (fst collected) (importedTypes G)\<rparr>)"

definition getImportedTypes :: "graph \<Rightarrow> string \<Rightarrow> jsset jsmap option" where
  "getImportedTypes G entry = map_of (importedTypes G) entry"

text \<open>\<open>this.exportedTypes.get(entryFile) ?? new Set()\<close>\<close>

definition getExportsForEntry :: "graph \<Rightarrow> string \<Rightarrow> jsset" where
  "getExportsForEntry G entryFile =
     (case map_of (exportedTypes G) entryFile of Some names \<Rightarrow> names | None \<Rightarrow> [])"

subsection \<open>Edges\<close>

text \<open>
  \<open>if (!entryRoot) return null\<close> and \<open>if (!resolvedFile) return null\<close> also take
  the empty string, which is falsy.
\<close>

definition resolveSpecifierToEntry ::
  "path_api \<Rightarrow> graph \<Rightarrow> string \<Rightarrow> string \<Rightarrow> string option" where
  "resolveSpecifierToEntry P G spec fromFile =
     (case map_of (entryRoots G) fromFile of
        None \<Rightarrow> None
      | Some entryRoot \<Rightarrow>
          if entryRoot = [] then None
          else if prefix ''.'' spec then
            (case resolveSpecifierToFile P G fromFile spec of
               None \<Rightarrow> None
             | Some resolvedFile \<Rightarrow>
                 if resolvedFile = [] then None
                 else
                   find (\<lambda>entry. case map_of (entryRoots G) entry of
                                    None \<Rightarrow> False
                                  | Some entryRootForFile \<Rightarrow>
                                      entryRootForFile \<noteq> []
                                      \<and> prefix entryRootForFile resolvedFile
                                      \<and> entryRootForFile = entryRoot)
                     (nodes G))
          else
            (case (case map_of (specifierToDts G) spec of
                     Some target \<Rightarrow>
                       if map_has (sourceFileCache G) target then Some target else None
                   | None \<Rightarrow> None) of
               Some target \<Rightarrow> Some target
             | None \<Rightarrow>
                 map_option snd
                   (find (\<lambda>(als, target). prefix (als @ ''/'') spec) (specifierToDts G))))"

text \<open>The inner loop of \<open>buildEdges\<close>: the set \<open>deps\<close> of one entry.\<close>

definition entryDeps :: "path_api \<Rightarrow> graph \<Rightarrow> string \<Rightarrow> jsset jsmap \<Rightarrow> jsset" where
  "entryDeps P G entry imports =
     fold (\<lambda>spec deps. case resolveSpecifierToEntry P G spec entry of
                          None \<Rightarrow> deps
                        | Some resolved \<Rightarrow>
                            if resolved = [] \<or> resolved = entry then deps
                            else set_add resolved deps)
       (map fst imports) []"

definition buildEdges :: "path_api \<Rightarrow> graph \<Rightarrow> graph" where
  "buildEdges P G =
     G\<lparr>edges :=
         fold (\<lambda>entry e. case map_of (importedTypes G) entry of
                            None \<Rightarrow> e
                          | Some imports \<Rightarrow> map_set entry (entryDeps P G entry imports) e)
           (nodes G) []\<rparr>"

subsection \<open>The constructor\<close>

text \<open>
  \<open>sourceFiles\<close> is \<open>program.getSourceFiles()\<close>, the result of the front end on the
  constructor's \<open>files\<close> and \<open>compilerOptions\<close>. The constructor ends with
  \<open>detectCycles\<close>, which writes \<open>cycles\<close> only.
\<close>

definition initEntryRoots :: "path_api \<Rightarrow> graph \<Rightarrow> DtsEntryPoint list \<Rightarrow> string jsmap" where
  "initEntryRoots P G entryPoints =
     fold (\<lambda>ep roots.
             let file = norm (dtsFile ep)
             in case getSourceFile G file of
                  Some sf \<Rightarrow> map_set file (norm (p_dirname P file)) roots
                | None \<Rightarrow> map_set file file roots)
       entryPoints []"

definition newDependencyGraph ::
  "path_api \<Rightarrow> source_file list \<Rightarrow> DtsEntryPoint list \<Rightarrow> graph" where
  "newDependencyGraph P sourceFiles entryPoints =
     (let G0 = \<lparr> nodes = map (\<lambda>ep. norm (dtsFile ep)) entryPoints,
                 edges = [], specifierToDts = [], exportedTypes = [], importedTypes = [],
                 entryRoots = [],
                 sourceFileCache =
                   fold (\<lambda>sf cache. map_set (norm (sf_fileName sf)) sf cache) sourceFiles [] \<rparr>;
          G1 = G0\<lparr>entryRoots := initEntryRoots P G0 entryPoints\<rparr>;
          G2 = buildSpecifierMap P G1 entryPoints;
          G3 = fold (collectTypesForEntry P) (nodes G2) G2
      in buildEdges P G3)"

subsection \<open>topoSort\<close>










subsection \<open>Notions for the properties of the graph\<close>






subsection \<open>A graph built by the constructor\<close>

text \<open>
  Two entries: \<open>@pkg/a\<close>, whose index file imports \<open>B\<close> from \<open>@pkg/b\<close> and
  re-exports \<open>./util\<close>, and \<open>@pkg/b\<close>.
\<close>

definition exampleSourceFiles :: "source_file list" where
  "exampleSourceFiles =
     [\<lparr> sf_fileName = ''/dist/a/index.d.ts'',
         sf_statements =
           [TsNode (ImportDeclaration (Some ''@pkg/b'') (NamedImports [''B''])) [],
            TsNode (ExportDeclaration (Some ''./util'') None) [],
            TsNode (Declaration InterfaceDeclaration True (Some ''A'')) []] \<rparr>,
      \<lparr> sf_fileName = ''/dist/a/util.d.ts'',
         sf_statements = [TsNode (Declaration VariableStatement True (Some ''u'')) []] \<rparr>,
      \<lparr> sf_fileName = ''/dist/b/index.d.ts'',
         sf_statements = [TsNode (Declaration InterfaceDeclaration True (Some ''B'')) []] \<rparr>]"

definition exampleEntryPoints :: "DtsEntryPoint list" where
  "exampleEntryPoints =
     [\<lparr> alias = ''@pkg/a'', dtsFile = ''/dist/a/index.d.ts'' \<rparr>,
      \<lparr> alias = ''@pkg/b'', dtsFile = ''/dist/b/index.d.ts'' \<rparr>]"

definition exampleGraph :: graph where
  "exampleGraph = newDependencyGraph (posix_api ''/w'') exampleSourceFiles exampleEntryPoints"

subsection \<open>Graphs with a cycle and with two aliases on one file\<close>









subsection \<open>Two entries in sibling directories\<close>

text \<open>
  A file lies under a directory when its path continues the path of the directory
  after a separator.
\<close>

definition underDirectory :: "string \<Rightarrow> string \<Rightarrow> bool" where
  "underDirectory dir file \<longleftrightarrow>
     prefix (if suffix ''/'' dir then dir else dir @ ''/'') file"

text \<open>
  The entries \<open>@p/a\<close> in \<open>/d/a\<close> and \<open>@p/ab\<close> in \<open>/d/ab\<close>. The index file of
  \<open>@p/a\<close> holds \<^verbatim>\<open>export * from '../ab/util';\<close>.
\<close>

definition siblingSourceFiles :: "source_file list" where
  "siblingSourceFiles =
     [\<lparr> sf_fileName = ''/d/a/index.d.ts'',
         sf_statements = [TsNode (ExportDeclaration (Some ''../ab/util'') None) []] \<rparr>,
      \<lparr> sf_fileName = ''/d/ab/index.d.ts'',
         sf_statements = [TsNode (ExportDeclaration (Some ''./util'') None) []] \<rparr>,
      \<lparr> sf_fileName = ''/d/ab/util.d.ts'',
         sf_statements = [TsNode (Declaration InterfaceDeclaration True (Some ''U'')) []] \<rparr>]"

definition siblingEntryPoints :: "DtsEntryPoint list" where
  "siblingEntryPoints =
     [\<lparr> alias = ''@p/a'', dtsFile = ''/d/a/index.d.ts'' \<rparr>,
      \<lparr> alias = ''@p/ab'', dtsFile = ''/d/ab/index.d.ts'' \<rparr>]"

definition siblingGraph :: graph where
  "siblingGraph = newDependencyGraph (posix_api ''/w'') siblingSourceFiles siblingEntryPoints"

subsection \<open>Notions for the properties of the specifier map\<close>

text \<open>
  \<open>registeredKeys P G ep\<close> are the keys that the body of the loop of
  \<open>buildSpecifierMap\<close> sets for the entry \<open>ep\<close>: those it leaves in an empty map.
  \<open>registersThreeForms\<close> is the statement that every entry whose file is loaded has
  its exact alias, its stripped alias and, for an \<open>index.d.ts\<close>, its directory form
  (the stripped alias again, as the code computes it) mapped to its own file.
  \<open>collidingEntryPoints\<close> are four entries over the files of \<open>exampleGraph\<close>.
\<close>

definition registeredKeys :: "path_api \<Rightarrow> graph \<Rightarrow> DtsEntryPoint \<Rightarrow> string list" where
  "registeredKeys P G ep = map fst (registerEntry P G ep [])"

definition collidingEntryPoints :: "DtsEntryPoint list" where
  "collidingEntryPoints =
     [\<lparr> alias = ''*'', dtsFile = ''/dist/a/util.d.ts'' \<rparr>,
      \<lparr> alias = ''@pkg/a/*'', dtsFile = ''/dist/a/index.d.ts'' \<rparr>,
      \<lparr> alias = ''@pkg/a'', dtsFile = ''/dist/b/index.d.ts'' \<rparr>,
      \<lparr> alias = [], dtsFile = ''/dist/b/index.d.ts'' \<rparr>]"

definition registersThreeForms :: "path_api \<Rightarrow> graph \<Rightarrow> DtsEntryPoint list \<Rightarrow> bool" where
  "registersThreeForms P G entryPoints \<longleftrightarrow>
     (\<forall>ep\<in>set entryPoints.
        map_has (sourceFileCache G) (norm (dtsFile ep)) \<longrightarrow>
          map_of (specifierToDts (buildSpecifierMap P G entryPoints)) (alias ep)
            = Some (norm (dtsFile ep))
          \<and> map_of (specifierToDts (buildSpecifierMap P G entryPoints)) (cleanAlias (alias ep))
            = Some (norm (dtsFile ep))
          \<and> (p_basename P (norm (dtsFile ep)) = ''index.d.ts'' \<longrightarrow>
                map_of (specifierToDts (buildSpecifierMap P G entryPoints))
                  (cleanAlias (alias ep)) = Some (norm (dtsFile ep))))"


subsection \<open>Invariants\<close>




definition aliasTargetsAreNodes :: "graph \<Rightarrow> bool" where
  "aliasTargetsAreNodes G \<longleftrightarrow> snd ` set (specifierToDts G) \<subseteq> set (nodes G)"

definition exportsAreSets :: "graph \<Rightarrow> bool" where
  "exportsAreSets G \<longleftrightarrow> (\<forall>e\<in>set (exportedTypes G). distinct (snd e))"

text \<open>What the constructor has built when it reaches \<open>buildEdges\<close>.\<close>

definition collectedGraph :: "path_api \<Rightarrow> source_file list \<Rightarrow> DtsEntryPoint list \<Rightarrow> graph" where
  "collectedGraph P sourceFiles entryPoints =
     (let G0 = \<lparr> nodes = map (\<lambda>ep. norm (dtsFile ep)) entryPoints,
                 edges = [], specifierToDts = [], exportedTypes = [], importedTypes = [],
                 entryRoots = [],
                 sourceFileCache =
                   fold (\<lambda>sf cache. map_set (norm (sf_fileName sf)) sf cache) sourceFiles [] \<rparr>;
          G1 = G0\<lparr>entryRoots := initEntryRoots P G0 entryPoints\<rparr>;
          G2 = buildSpecifierMap P G1 entryPoints
      in fold (collectTypesForEntry P) (nodes G2) G2)"

section \<open>enhanced-bundler.ts\<close>

subsection \<open>processExportDeclaration\<close>

text \<open>
  The fields of \<open>DTSBundler\<close> that \<open>processExportDeclaration\<close> reads and writes;
  \<open>programSourceFiles\<close> is \<open>this.program.getSourceFiles()\<close>. A method returns the
  error it throws, if any, with the state at that point.
\<close>

record bundler =
  exportedSymbols :: jsset
  externalImports :: jsset
  programSourceFiles :: "source_file list"

definition isSamePackage :: "string \<Rightarrow> bool" where
  "isSamePackage moduleSpecifier \<longleftrightarrow>
     prefix ''./'' moduleSpecifier \<or> prefix ''../'' moduleSpecifier
     \<or> moduleSpecifier = ''.'' \<or> moduleSpecifier = ''..''"

text \<open>
  A \<open>const\<close> binding exists from the start of its block and is uninitialised until
  its declaration has been evaluated; it is \<open>None\<close> until then, and reading it throws
  a \<open>ReferenceError\<close>. \<open>findE\<close> is \<open>Array.prototype.find\<close> with a callback that can
  throw.
\<close>

definition readBinding :: "'a option \<Rightarrow> js_error + 'a" where
  "readBinding b = (case b of None \<Rightarrow> Inl ReferenceError | Some v \<Rightarrow> Inr v)"

fun findE :: "('a \<Rightarrow> js_error + bool) \<Rightarrow> 'a list \<Rightarrow> js_error + 'a option" where
  "findE p [] = Inr None"
| "findE p (x # xs) =
     (case p x of
        Inl e \<Rightarrow> Inl e
      | Inr found \<Rightarrow> if found then Inr (Some x) else findE p xs)"

text \<open>
  The \<open>else\<close> block of \<open>processExportDeclaration\<close>:
  \<^verbatim>\<open>
  const sourceFile = this.program.getSourceFiles().find(f => f.fileName === modulePath);
  const modulePath = this.resolveModulePath(moduleSpecifier, sourceFile!.fileName);
  if (sourceFile && this.shouldProcessFile(sourceFile.fileName)) {
    this.processFileForExportsAndReferences(sourceFile);
  }
  \<close>
  The callback of \<open>find\<close> runs while \<open>modulePath\<close> is uninitialised. When \<open>find\<close>
  returns \<open>undefined\<close>, \<open>sourceFile!.fileName\<close> throws a \<open>TypeError\<close>. The methods
  \<open>resolveModulePath\<close> (which asks the file system), \<open>shouldProcessFile\<close> and
  \<open>processFileForExportsAndReferences\<close> (which calls back into
  \<open>processExportDeclaration\<close>) are parameters.
\<close>

definition samePackageExport ::
  "(string \<Rightarrow> string \<Rightarrow> string) \<Rightarrow> (string \<Rightarrow> bool)
     \<Rightarrow> (source_file \<Rightarrow> bundler \<Rightarrow> js_error option \<times> bundler)
     \<Rightarrow> string \<Rightarrow> bundler \<Rightarrow> js_error option \<times> bundler" where
  "samePackageExport resolveModulePath shouldProcessFile processFile moduleSpecifier B =
     (let uninitialised = (None :: string option)
      in case findE (\<lambda>f. case readBinding uninitialised of
                             Inl e \<Rightarrow> Inl e
                           | Inr modulePath \<Rightarrow> Inr (sf_fileName f = modulePath))
                (programSourceFiles B) of
           Inl e \<Rightarrow> (Some e, B)
         | Inr None \<Rightarrow> (Some TypeError, B)
         | Inr (Some sourceFile) \<Rightarrow>
             let modulePath = resolveModulePath moduleSpecifier (sf_fileName sourceFile)
             in if shouldProcessFile (sf_fileName sourceFile) then processFile sourceFile B
                else (None, B))"

text \<open>
  \<open>exportClause\<close> is the list of element names when the node has a \<open>NamedExports\<close>
  clause; \<open>moduleSpecifier\<close> is the text when the node has a string-literal specifier.
\<close>

definition processExportDeclaration ::
  "(string \<Rightarrow> string \<Rightarrow> string) \<Rightarrow> (string \<Rightarrow> bool)
     \<Rightarrow> (source_file \<Rightarrow> bundler \<Rightarrow> js_error option \<times> bundler)
     \<Rightarrow> string list option \<Rightarrow> string option \<Rightarrow> bundler \<Rightarrow> js_error option \<times> bundler" where
  "processExportDeclaration resolveModulePath shouldProcessFile processFile
       exportClause moduleSpecifier B =
     (case exportClause of
        None \<Rightarrow> (None, B)
      | Some elements \<Rightarrow>
          let B1 = B\<lparr>exportedSymbols := fold set_add elements (exportedSymbols B)\<rparr>
          in case moduleSpecifier of
               None \<Rightarrow> (None, B1)
             | Some spec \<Rightarrow>
                 if \<not> isSamePackage spec
                 then (None, B1\<lparr>externalImports := set_add spec (externalImports B1)\<rparr>)
                 else samePackageExport resolveModulePath shouldProcessFile processFile
                        spec B1)"

subsection \<open>getImportAlias\<close>











subsection \<open>Where the alias is used\<close>













section \<open>Properties of the JavaScript values\<close>

lemma norm_idem: "norm (norm p) = norm p"
  by (simp add: norm_def)

lemma map_of_map_set: "map_of (map_set k v m) = (map_of m)(k \<mapsto> v)"
  by (induction m) (auto simp: fun_eq_iff)

section \<open>Properties of the alias hierarchy\<close>

lemma segs_a: "segmentsOf ''@pkg/a'' = [''@pkg'', ''a'']"
  by (simp add: segmentsOf_def)

lemma segs_sub: "segmentsOf ''@pkg/a/sub'' = [''@pkg'', ''a'', ''sub'']"
  by (simp add: segmentsOf_def)

lemma upt2: "[0..<2] = [0, Suc 0]"
  by (simp add: upt_rec)

lemma hier_nodes:
  "fst (buildHierarchy (pkgAliasEntries P outDir)) =
     [mkPathNode (exactAliasEntry P outDir ''@pkg/a'' ''src/a'')\<lparr>pn_children := [1]\<rparr>,
      mkPathNode (exactAliasEntry P outDir ''@pkg/a/sub'' ''src/a/sub'')\<lparr>pn_parent := Some 0\<rparr>]"
  by (simp add: buildHierarchy_def pkgAliasEntries_def exactAliasEntry_def mkPathNode_def
      segs_a segs_sub upt2 attachNode_def bestParentStep_def Let_def)

lemma hier_roots: "snd (buildHierarchy (pkgAliasEntries P outDir)) = [0]"
  using hier_nodes[of P outDir]
  by (simp add: buildHierarchy_def Let_def upt2 mkPathNode_def split_beta)

lemma join_sub: "posix_join [''.'', ''sub''] = ''sub''"
  by (simp add: posix_join_def posix_normalize_def)

text \<open>
  C8. For the alias set \<open>{"@pkg/a": "src/a", "@pkg/a/sub": "src/a/sub"}\<close>,
  \<open>buildHierarchy\<close> makes the \<open>@pkg/a/sub\<close> node (index 1) a child of the
  \<open>@pkg/a\<close> node (index 0), the only root, and \<open>calculateRelativePaths\<close> gives the
  root entry the relative path \<open>.\<close> and the sub entry the parent alias \<open>@pkg/a\<close>
  and the relative path \<open>./sub\<close>; two levels of recursion are enough.
\<close>

theorem hierarchy_pkg_a_sub:
  "map (\<lambda>n. (pn_alias n, pn_children n, pn_parent n))
       (fst (buildHierarchy (pkgAliasEntries P outDir)))
     = [(''@pkg/a'', [1], None), (''@pkg/a/sub'', [], Some 0)]
   \<and> snd (buildHierarchy (pkgAliasEntries P outDir)) = [0]
   \<and> map_option (map (\<lambda>e. (ep_alias e, ep_relativePath e, ep_parentAlias e)))
        (calculateRelativePaths (Suc (Suc fuel)) (pkgAliasEntries P outDir))
     = Some [(''@pkg/a'', Some ''.'', None), (''@pkg/a/sub'', Some ''./sub'', Some ''@pkg/a'')]"
proof (intro conjI)
  show "map (\<lambda>n. (pn_alias n, pn_children n, pn_parent n))
       (fst (buildHierarchy (pkgAliasEntries P outDir)))
     = [(''@pkg/a'', [1], None), (''@pkg/a/sub'', [], Some 0)]"
    by (simp add: hier_nodes mkPathNode_def exactAliasEntry_def Let_def)
  show "snd (buildHierarchy (pkgAliasEntries P outDir)) = [0]"
    by (rule hier_roots)
  show "map_option (map (\<lambda>e. (ep_alias e, ep_relativePath e, ep_parentAlias e)))
        (calculateRelativePaths (Suc (Suc fuel)) (pkgAliasEntries P outDir))
     = Some [(''@pkg/a'', Some ''.'', None), (''@pkg/a/sub'', Some ''./sub'', Some ''@pkg/a'')]"
    by (simp add: calculateRelativePaths_def hier_nodes hier_roots Let_def mkPathNode_def
        join_sub segs_a segs_sub)
      (simp add: pkgAliasEntries_def exactAliasEntry_def Let_def segs_a segs_sub join_sub)
qed

section \<open>Properties of topoSort\<close>


lemma set_set_add: "set (set_add x s) = insert x (set s)"
  by (auto simp: set_add_def)

lemma distinct_set_add: "distinct s \<Longrightarrow> distinct (set_add x s)"
  by (simp add: set_add_def)






















section \<open>Properties of the edges and of the collected symbols\<close>

lemma set_map_set: "set (map_set k v m) \<subseteq> insert (k, v) (set m)"
  by (induction m) (auto split: if_splits)

lemma keys_map_set: "fst ` set (map_set k v m) = insert k (fst ` set m)"
  by (simp add: dom_map_of_conv_image_fst[symmetric] map_of_map_set)


lemma registerEntry_values:
  assumes "(k, v) \<in> set (registerEntry P G ep m)"
  shows "(k, v) \<in> set m \<or> v = norm (dtsFile ep)"
proof -
  have *: "(k, v) \<in> set (map_set k' f m') \<Longrightarrow> (k, v) \<in> set m' \<or> v = f" for k' f m'
    using set_map_set[of k' f m'] by auto
  show ?thesis
    using assms unfolding registerEntry_def Let_def
    by (auto split: if_splits dest!: *)
qed

lemma buildSpecifierMap_values:
  "(k, v) \<in> set (fold (registerEntry P G) eps m)
     \<Longrightarrow> (k, v) \<in> set m \<or> v \<in> (\<lambda>ep. norm (dtsFile ep)) ` set eps"
proof (induction eps arbitrary: m)
  case Nil
  then show ?case by simp
next
  case (Cons ep eps)
  from Cons.IH[of "registerEntry P G ep m"] Cons.prems
  have "(k, v) \<in> set (registerEntry P G ep m) \<or> v \<in> (\<lambda>ep. norm (dtsFile ep)) ` set eps"
    by simp
  then show ?case
  proof
    assume "(k, v) \<in> set (registerEntry P G ep m)"
    from registerEntry_values[OF this] show ?thesis by auto
  next
    assume "v \<in> (\<lambda>ep. norm (dtsFile ep)) ` set eps"
    then show ?thesis by auto
  qed
qed

lemma find_in_set: "find Q xs = Some x \<Longrightarrow> x \<in> set xs"
  by (induction xs) (auto split: if_splits)

lemma resolveSpecifierToEntry_node:
  assumes "aliasTargetsAreNodes G" and "resolveSpecifierToEntry P G spec fromFile = Some r"
  shows "r \<in> set (nodes G)"
proof -
  have vals: "t \<in> set (nodes G)" if "(a, t) \<in> set (specifierToDts G)" for a t
  proof -
    from that have "t \<in> snd ` set (specifierToDts G)" by force
    then show ?thesis using assms(1) by (auto simp: aliasTargetsAreNodes_def)
  qed
  show ?thesis
    using assms(2) unfolding resolveSpecifierToEntry_def
    by (auto split: option.splits if_splits dest!: find_in_set map_of_SomeD dest: vals)
qed

lemma entryDeps_fold:
  assumes "d \<in> set (fold (\<lambda>spec deps. case resolveSpecifierToEntry P G spec entry of
                          None \<Rightarrow> deps
                        | Some resolved \<Rightarrow>
                            if resolved = [] \<or> resolved = entry then deps
                            else set_add resolved deps) specs acc)"
  shows "d \<in> set acc \<or> (d \<noteq> entry \<and> d \<noteq> []
           \<and> (\<exists>spec\<in>set specs. resolveSpecifierToEntry P G spec entry = Some d))"
  using assms
proof (induction specs arbitrary: acc)
  case Nil
  then show ?case by simp
next
  case (Cons spec specs)
  let ?acc' = "(case resolveSpecifierToEntry P G spec entry of
                          None \<Rightarrow> acc
                        | Some resolved \<Rightarrow>
                            if resolved = [] \<or> resolved = entry then acc
                            else set_add resolved acc)"
  from Cons.IH[of ?acc'] Cons.prems
  have "d \<in> set ?acc' \<or> (d \<noteq> entry \<and> d \<noteq> []
           \<and> (\<exists>spec\<in>set specs. resolveSpecifierToEntry P G spec entry = Some d))"
    by simp
  moreover have "d \<in> set acc \<or> (d \<noteq> entry \<and> d \<noteq> []
      \<and> resolveSpecifierToEntry P G spec entry = Some d)" if "d \<in> set ?acc'"
    using that by (auto simp: set_set_add split: option.splits if_splits)
  ultimately show ?case by auto
qed


lemma entryDeps_member:
  assumes "d \<in> set (entryDeps P G entry imps)"
  shows "d \<noteq> entry \<and> d \<noteq> []
     \<and> (\<exists>spec\<in>fst ` set imps. resolveSpecifierToEntry P G spec entry = Some d)"
  using entryDeps_fold[OF assms[unfolded entryDeps_def]]
  by auto


lemma buildEdges_fold:
  assumes "(entry, deps) \<in> set (fold (\<lambda>entry e. case map_of (importedTypes G) entry of
                            None \<Rightarrow> e
                          | Some imps \<Rightarrow> map_set entry (entryDeps P G entry imps) e) ns acc)"
  shows "(entry, deps) \<in> set acc
     \<or> (entry \<in> set ns \<and> (\<exists>imps. map_of (importedTypes G) entry = Some imps
            \<and> deps = entryDeps P G entry imps))"
  using assms
proof (induction ns arbitrary: acc)
  case Nil
  then show ?case by simp
next
  case (Cons n ns)
  let ?acc' = "(case map_of (importedTypes G) n of
                            None \<Rightarrow> acc
                          | Some imps \<Rightarrow> map_set n (entryDeps P G n imps) acc)"
  from Cons.IH[of ?acc'] Cons.prems
  have "(entry, deps) \<in> set ?acc'
     \<or> (entry \<in> set ns \<and> (\<exists>imps. map_of (importedTypes G) entry = Some imps
            \<and> deps = entryDeps P G entry imps))"
    by simp
  moreover have "(entry, deps) \<in> set acc \<or> (entry = n \<and> (\<exists>imps.
       map_of (importedTypes G) entry = Some imps \<and> deps = entryDeps P G entry imps))"
    if "(entry, deps) \<in> set ?acc'"
  proof (cases "map_of (importedTypes G) n")
    case None
    then show ?thesis using that by simp
  next
    case (Some imps)
    then have "(entry, deps) \<in> insert (n, entryDeps P G n imps) (set acc)"
      using that set_map_set[of n "entryDeps P G n imps" acc] by auto
    then show ?thesis using Some by auto
  qed
  ultimately show ?case by auto
qed


lemma buildEdges_edge:
  assumes "(entry, deps) \<in> set (edges (buildEdges P G))"
  shows "entry \<in> set (nodes G)
     \<and> (\<exists>imps. map_of (importedTypes G) entry = Some imps
            \<and> deps = entryDeps P G entry imps)"
proof -
  from assms have "(entry, deps) \<in> set (fold (\<lambda>entry e. case map_of (importedTypes G) entry of
                            None \<Rightarrow> e
                          | Some imps \<Rightarrow> map_set entry (entryDeps P G entry imps) e) (nodes G) [])"
    by (simp add: buildEdges_def)
  from buildEdges_fold[OF this] show ?thesis by simp
qed


lemma exampleGraph_edges:
  "edges exampleGraph = [(''/dist/a/index.d.ts'', [''/dist/b/index.d.ts'']), (''/dist/b/index.d.ts'', [])]"
  by code_simp

lemma exampleGraph_nodes:
  "nodes exampleGraph = [''/dist/a/index.d.ts'', ''/dist/b/index.d.ts'']"
  by code_simp

lemma exampleGraph_exports:
  "getExportsForEntry exampleGraph ''/dist/a/index.d.ts'' = [''A'', ''u'']"
  by code_simp

lemma collectTypesForEntry_fields:
  "nodes (collectTypesForEntry P e G) = nodes G"
  "specifierToDts (collectTypesForEntry P e G) = specifierToDts G"
  "entryRoots (collectTypesForEntry P e G) = entryRoots G"
  "sourceFileCache (collectTypesForEntry P e G) = sourceFileCache G"
  "edges (collectTypesForEntry P e G) = edges G"
  by (simp_all add: collectTypesForEntry_def Let_def)

lemma fold_collectTypes_fields:
  "nodes (fold (collectTypesForEntry P) ns G) = nodes G"
  "specifierToDts (fold (collectTypesForEntry P) ns G) = specifierToDts G"
  by (induction ns arbitrary: G) (simp_all add: collectTypesForEntry_fields)

lemma fold_collectTypes_exported_keys:
  "fst ` set (exportedTypes (fold (collectTypesForEntry P) ns G))
     = fst ` set (exportedTypes G) \<union> set ns"
proof (induction ns arbitrary: G)
  case Nil
  show ?case by simp
next
  case (Cons n ns)
  have "fst ` set (exportedTypes (collectTypesForEntry P n G))
      = insert n (fst ` set (exportedTypes G))"
    by (simp add: collectTypesForEntry_def Let_def keys_map_set)
  then show ?case by (simp add: Cons.IH)
qed

lemma newDependencyGraph_buildEdges:
  "newDependencyGraph P sourceFiles entryPoints
     = buildEdges P (collectedGraph P sourceFiles entryPoints)"
  by (simp add: newDependencyGraph_def collectedGraph_def Let_def)

lemma collectedGraph_nodes:
  "nodes (collectedGraph P sourceFiles entryPoints) = map (\<lambda>ep. norm (dtsFile ep)) entryPoints"
  by (simp add: collectedGraph_def Let_def fold_collectTypes_fields buildSpecifierMap_def)

lemma collectedGraph_aliasTargets:
  "aliasTargetsAreNodes (collectedGraph P sourceFiles entryPoints)"
proof -
  have "t \<in> set (nodes (collectedGraph P sourceFiles entryPoints))"
    if "(a, t) \<in> set (specifierToDts (collectedGraph P sourceFiles entryPoints))" for a t
  proof -
    from that obtain G1 where "(a, t) \<in> set (fold (registerEntry P G1) entryPoints [])"
      by (auto simp: collectedGraph_def Let_def fold_collectTypes_fields buildSpecifierMap_def)
    from buildSpecifierMap_values[OF this]
    show ?thesis by (simp add: collectedGraph_nodes)
  qed
  then show ?thesis by (auto simp: aliasTargetsAreNodes_def)
qed


lemma nestedAliasFile_edges:
  "nestedAliasFile P (G\<lparr>edges := e\<rparr>) spec m = nestedAliasFile P G spec m"
  by (induction m) (auto simp: Let_def)

lemma resolveSpecifierToFile_edges:
  "resolveSpecifierToFile P (G\<lparr>edges := e\<rparr>) fromFile spec
     = resolveSpecifierToFile P G fromFile spec"
  by (simp add: resolveSpecifierToFile_def nestedAliasFile_edges
      cong: option.case_cong if_cong)

lemma resolveSpecifierToEntry_edges:
  "resolveSpecifierToEntry P (G\<lparr>edges := e\<rparr>) spec fromFile
     = resolveSpecifierToEntry P G spec fromFile"
  by (simp add: resolveSpecifierToEntry_def resolveSpecifierToFile_edges
      cong: option.case_cong if_cong)

text \<open>
  C3. In the graph the constructor builds, every edge recorded by \<open>buildEdges\<close> leaves
  an entry node, goes to what \<open>resolveSpecifierToEntry\<close> returns for one of the
  entry's import specifiers, has a target different from its source (no self-edge), and
  its target is one of the graph's nodes.
\<close>

theorem buildEdges_targets:
  assumes "G = newDependencyGraph P sourceFiles entryPoints"
    and "(entry, deps) \<in> set (edges G)" and "dep \<in> set deps"
  shows "dep \<noteq> entry \<and> dep \<in> set (nodes G) \<and> entry \<in> set (nodes G)
     \<and> (\<exists>imps spec. getImportedTypes G entry = Some imps \<and> spec \<in> fst ` set imps
           \<and> resolveSpecifierToEntry P G spec entry = Some dep)"
proof -
  let ?C = "collectedGraph P sourceFiles entryPoints"
  have G: "G = buildEdges P ?C"
    using assms(1) by (simp add: newDependencyGraph_buildEdges)
  from assms(2) have "(entry, deps) \<in> set (edges (buildEdges P ?C))"
    by (simp add: G)
  from buildEdges_edge[OF this] obtain imps where
    entry: "entry \<in> set (nodes ?C)" and imps: "map_of (importedTypes ?C) entry = Some imps"
    and deps: "deps = entryDeps P ?C entry imps"
    by blast
  from assms(3) deps have "dep \<in> set (entryDeps P ?C entry imps)" by simp
  from entryDeps_member[OF this] obtain spec where
    ne: "dep \<noteq> entry" and spec: "spec \<in> fst ` set imps"
    and res: "resolveSpecifierToEntry P ?C spec entry = Some dep"
    by blast
  have "dep \<in> set (nodes ?C)"
    by (rule resolveSpecifierToEntry_node[OF collectedGraph_aliasTargets res])
  moreover have "nodes G = nodes ?C" and "importedTypes G = importedTypes ?C"
    by (simp_all add: G buildEdges_def)
  moreover have "resolveSpecifierToEntry P G spec entry = Some dep"
    using res by (simp add: G buildEdges_def resolveSpecifierToEntry_edges)
  ultimately show ?thesis
    using ne entry imps spec by (auto simp: getImportedTypes_def)
qed

theorem buildEdges_targets_witness:
  "(''/dist/a/index.d.ts'', [''/dist/b/index.d.ts'']) \<in> set (edges exampleGraph)
   \<and> ''/dist/b/index.d.ts'' \<in> set [''/dist/b/index.d.ts'']
   \<and> ''/dist/b/index.d.ts'' \<noteq> ''/dist/a/index.d.ts''
   \<and> ''/dist/b/index.d.ts'' \<in> set (nodes exampleGraph)
   \<and> resolveSpecifierToEntry (posix_api ''/w'') exampleGraph ''@pkg/b'' ''/dist/a/index.d.ts''
       = Some ''/dist/b/index.d.ts''"
proof -
  have edge: "(''/dist/a/index.d.ts'', [''/dist/b/index.d.ts'']) \<in> set (edges exampleGraph)"
    by (simp add: exampleGraph_edges)
  have dep: "''/dist/b/index.d.ts'' \<in> set [''/dist/b/index.d.ts'']"
    by simp
  from buildEdges_targets[OF exampleGraph_def edge dep]
  have "''/dist/b/index.d.ts'' \<noteq> ''/dist/a/index.d.ts''
      \<and> ''/dist/b/index.d.ts'' \<in> set (nodes exampleGraph)"
    by blast
  moreover have "resolveSpecifierToEntry (posix_api ''/w'') exampleGraph ''@pkg/b''
      ''/dist/a/index.d.ts'' = Some ''/dist/b/index.d.ts''"
    by code_simp
  ultimately show ?thesis using edge dep by blast
qed

lemma visitInfo_distinct: "distinct (snd st) \<Longrightarrow> distinct (snd (visitInfo info st))"
  by (cases "(info, st)" rule: visitInfo.cases) (auto simp: distinct_set_add split: option.splits)

lemma visit_distinct: "distinct (snd st) \<Longrightarrow> distinct (snd (visit n st))"
proof (induction n st rule: visit.induct)
  case (1 info children st)
  have "distinct (snd (fold visit cs st'))"
    if "set cs \<subseteq> set children" and "distinct (snd st')" for cs st'
    using that
  proof (induction cs arbitrary: st')
    case Nil
    then show ?case by simp
  next
    case (Cons c cs)
    then have "distinct (snd (visit c st'))" using 1(1)[of c st'] by simp
    with Cons show ?case by simp
  qed
  then show ?case using 1(2) by (simp add: visitInfo_distinct)
qed

lemma collected_distinct:
  "distinct (snd st) \<Longrightarrow>
   distinct (snd (fold (\<lambda>file st. case getSourceFile G file of
                               None \<Rightarrow> st
                             | Some sf \<Rightarrow> extractTypesFromSourceFile sf st) files st))"
proof (induction files arbitrary: st)
  case Nil
  then show ?case by simp
next
  case (Cons f files)
  have step: "distinct (snd (fold visit ns st'))" if "distinct (snd st')" for ns st'
    using that by (induction ns arbitrary: st') (simp_all add: visit_distinct)
  have "distinct (snd (case getSourceFile G f of
                               None \<Rightarrow> st
                             | Some sf \<Rightarrow> extractTypesFromSourceFile sf st))"
    using Cons.prems by (auto simp: extractTypesFromSourceFile_def step split: option.splits)
  from Cons.IH[OF this] show ?case by simp
qed

lemma collectTypesForEntry_sets:
  assumes "exportsAreSets G"
  shows "exportsAreSets (collectTypesForEntry P n G)"
  unfolding exportsAreSets_def
proof
  fix e assume "e \<in> set (exportedTypes (collectTypesForEntry P n G))"
  then obtain v where "e \<in> set (map_set n v (exportedTypes G))"
    and v: "v = snd (fold (\<lambda>file st. case getSourceFile G file of
                               None \<Rightarrow> st
                             | Some sf \<Rightarrow> extractTypesFromSourceFile sf st)
              (findAllDtsFilesFromEntry P G n) ([], []))"
    by (simp add: collectTypesForEntry_def Let_def)
  then have "e = (n, v) \<or> e \<in> set (exportedTypes G)"
    using set_map_set[of n v "exportedTypes G"] by auto
  moreover have "distinct v" unfolding v by (rule collected_distinct) simp
  ultimately show "distinct (snd e)"
    using assms by (auto simp: exportsAreSets_def)
qed

lemma fold_collectTypes_sets:
  "exportsAreSets G \<Longrightarrow> exportsAreSets (fold (collectTypesForEntry P) ns G)"
  by (induction ns arbitrary: G) (simp_all add: collectTypesForEntry_sets)

text \<open>
  C10. \<open>getExportsForEntry\<close> returns a set of names for every path: on the graph the
  constructor builds, the empty set for a path that is not an entry (types are collected
  for the nodes and for nothing else), the set collected for the entry otherwise, and in
  both cases a list without duplicates.
\<close>

theorem getExportsForEntry_total:
  assumes "G = newDependencyGraph P sourceFiles entryPoints"
  shows "(entryFile \<notin> set (nodes G) \<longrightarrow> getExportsForEntry G entryFile = [])
     \<and> distinct (getExportsForEntry G entryFile)
     \<and> (entryFile \<in> set (nodes G) \<longrightarrow>
          map_of (exportedTypes G) entryFile = Some (getExportsForEntry G entryFile))"
proof -
  let ?C = "collectedGraph P sourceFiles entryPoints"
  have ex: "exportedTypes G = exportedTypes ?C" and no: "nodes G = nodes ?C"
    using assms by (simp_all add: newDependencyGraph_buildEdges buildEdges_def)
  have keys: "fst ` set (exportedTypes ?C) = set (nodes ?C)"
    by (simp add: collectedGraph_def Let_def fold_collectTypes_exported_keys
        fold_collectTypes_fields buildSpecifierMap_def)
  have sets: "exportsAreSets ?C"
    unfolding collectedGraph_def Let_def
    by (rule fold_collectTypes_sets) (simp add: exportsAreSets_def buildSpecifierMap_def)
  have absent: "getExportsForEntry G entryFile = []" if "entryFile \<notin> set (nodes G)"
  proof -
    from that have "entryFile \<notin> fst ` set (exportedTypes G)" by (simp add: ex no keys)
    then have "map_of (exportedTypes G) entryFile = None" by (simp add: map_of_eq_None_iff)
    then show ?thesis by (simp add: getExportsForEntry_def)
  qed
  have present: "map_of (exportedTypes G) entryFile = Some (getExportsForEntry G entryFile)"
    if "entryFile \<in> set (nodes G)"
  proof -
    from that have "entryFile \<in> fst ` set (exportedTypes G)" by (simp add: ex no keys)
    then obtain v where "map_of (exportedTypes G) entryFile = Some v"
      by (cases "map_of (exportedTypes G) entryFile") (auto simp: map_of_eq_None_iff)
    then show ?thesis by (simp add: getExportsForEntry_def)
  qed
  have "distinct (getExportsForEntry G entryFile)"
  proof (cases "map_of (exportedTypes G) entryFile")
    case None
    then show ?thesis by (simp add: getExportsForEntry_def)
  next
    case (Some v)
    then have "(entryFile, v) \<in> set (exportedTypes ?C)"
      using ex by (auto dest: map_of_SomeD)
    then have "distinct v" using sets by (auto simp: exportsAreSets_def)
    then show ?thesis using Some by (simp add: getExportsForEntry_def)
  qed
  with absent present show ?thesis by blast
qed

theorem getExportsForEntry_total_witness:
  "''/dist/a/util.d.ts'' \<notin> set (nodes exampleGraph)
   \<and> getExportsForEntry exampleGraph ''/dist/a/util.d.ts'' = []
   \<and> ''/dist/a/index.d.ts'' \<in> set (nodes exampleGraph)
   \<and> getExportsForEntry exampleGraph ''/dist/a/index.d.ts'' = [''A'', ''u'']
   \<and> map_of (exportedTypes exampleGraph) ''/dist/a/index.d.ts'' = Some [''A'', ''u'']"
proof -
  have out: "''/dist/a/util.d.ts'' \<notin> set (nodes exampleGraph)"
    and inn: "''/dist/a/index.d.ts'' \<in> set (nodes exampleGraph)"
    by (simp_all add: exampleGraph_nodes)
  from getExportsForEntry_total[OF exampleGraph_def, of "''/dist/a/util.d.ts''"] out
  have "getExportsForEntry exampleGraph ''/dist/a/util.d.ts'' = []" by blast
  moreover
  from getExportsForEntry_total[OF exampleGraph_def, of "''/dist/a/index.d.ts''"] inn
  have "map_of (exportedTypes exampleGraph) ''/dist/a/index.d.ts''
      = Some (getExportsForEntry exampleGraph ''/dist/a/index.d.ts'')" by blast
  ultimately show ?thesis
    using out inn by (simp add: exampleGraph_exports)
qed

section \<open>Properties of topoSort on the graph of the constructor\<close>











section \<open>Properties of the reachable files\<close>

lemma findAllLoop_drop:
  assumes "queue \<noteq> []"
    and "norm (last queue) \<in> set seen \<or> getSourceFile G (norm (last queue)) = None
       \<or> \<not> (suffix ''.d.ts'' (norm (last queue)) \<or> suffix ''.d.mts'' (norm (last queue)))
       \<or> \<not> prefix root (norm (last queue))"
  shows "findAllLoop P G root seen queue = findAllLoop P G root seen (butlast queue)"
  using assms by (subst findAllLoop.simps) (auto simp: Let_def split: option.splits)

lemma findAllLoop_keep:
  assumes "queue \<noteq> []" and "norm (last queue) \<notin> set seen"
    and "getSourceFile G (norm (last queue)) = Some sf"
    and "suffix ''.d.ts'' (norm (last queue)) \<or> suffix ''.d.mts'' (norm (last queue))"
    and "prefix root (norm (last queue))"
  shows "findAllLoop P G root seen queue
     = findAllLoop P G root (seen @ [norm (last queue)])
         (fold (pushResolved P G (norm (last queue)) (seen @ [norm (last queue)]))
            (findImportsAndExports sf) (butlast queue))"
  using assms by (subst findAllLoop.simps) (simp add: Let_def)

lemma findAllLoop_inv:
  assumes "distinct seen"
    and "\<forall>f\<in>set seen. prefix root f \<and> (suffix ''.d.ts'' f \<or> suffix ''.d.mts'' f) \<and> norm f = f"
  shows "distinct (findAllLoop P G root seen queue)
     \<and> (\<forall>f\<in>set (findAllLoop P G root seen queue).
           prefix root f \<and> (suffix ''.d.ts'' f \<or> suffix ''.d.mts'' f) \<and> norm f = f)"
  using assms
proof (induction P G root seen queue rule: findAllLoop.induct)
  case (1 P G root seen queue)
  let ?x = "norm (last queue)"
  show ?case
  proof (cases "queue = []")
    case True
    have "findAllLoop P G root seen queue = seen"
      using True by (subst findAllLoop.simps) simp
    then show ?thesis using "1.prems" by simp
  next
    case q: False
    show ?thesis
    proof (cases "?x \<in> set seen")
      case True
      then have E: "findAllLoop P G root seen queue = findAllLoop P G root seen (butlast queue)"
        using q by (intro findAllLoop_drop) simp_all
      show ?thesis
        unfolding E by (rule "1.IH"(1)[OF q refl True "1.prems"])
    next
      case ns: False
      show ?thesis
      proof (cases "getSourceFile G ?x")
        case None
        then have E: "findAllLoop P G root seen queue = findAllLoop P G root seen (butlast queue)"
          using q by (intro findAllLoop_drop) simp_all
        show ?thesis
          unfolding E by (rule "1.IH"(2)[OF q refl ns None "1.prems"])
      next
        case (Some sf)
        show ?thesis
        proof (cases "suffix ''.d.ts'' ?x \<or> suffix ''.d.mts'' ?x")
          case False
          then have E: "findAllLoop P G root seen queue = findAllLoop P G root seen (butlast queue)"
            using q by (intro findAllLoop_drop) simp_all
          show ?thesis
            unfolding E by (rule "1.IH"(3)[OF q refl ns Some False "1.prems"])
        next
          case suf: True
          then have nn_suf: "\<not> \<not> (suffix ''.d.ts'' ?x \<or> suffix ''.d.mts'' ?x)"
            by simp
          show ?thesis
          proof (cases "prefix root ?x")
            case False
            then have E: "findAllLoop P G root seen queue = findAllLoop P G root seen (butlast queue)"
              using q by (intro findAllLoop_drop) simp_all
            show ?thesis
              unfolding E by (rule "1.IH"(4)[OF q refl ns Some nn_suf False "1.prems"])
          next
            case pre: True
            then have nn_pre: "\<not> \<not> prefix root ?x" by simp
            have d: "distinct (seen @ [?x])" using "1.prems"(1) ns by simp
            have inv: "\<forall>f\<in>set (seen @ [?x]).
                prefix root f \<and> (suffix ''.d.ts'' f \<or> suffix ''.d.mts'' f) \<and> norm f = f"
              using "1.prems"(2) suf pre by (auto simp: norm_idem)
            have E: "findAllLoop P G root seen queue
                = findAllLoop P G root (seen @ [?x])
                    (fold (pushResolved P G ?x (seen @ [?x])) (findImportsAndExports sf)
                       (butlast queue))"
              by (rule findAllLoop_keep[OF q ns Some suf pre])
            show ?thesis
              unfolding E by (rule "1.IH"(5)[OF q refl ns Some nn_suf nn_pre d inv])
          qed
        qed
      qed
    qed
  qed
qed

text \<open>
  Every file that \<open>findAllDtsFilesFromEntry\<close> returns has a normalised path that has
  the root of the entry for a prefix, as a string, ends in \<open>.d.ts\<close> or \<open>.d.mts\<close>,
  and occurs once in the result.
\<close>

lemma findAllDtsFilesFromEntry_prefix:
  assumes "map_of (entryRoots G) entry = Some root"
  shows "distinct (findAllDtsFilesFromEntry P G entry)
     \<and> (\<forall>file\<in>set (findAllDtsFilesFromEntry P G entry).
           prefix root (norm file) \<and> (suffix ''.d.ts'' file \<or> suffix ''.d.mts'' file))"
proof -
  have "distinct (findAllLoop P G root [] [entry])
     \<and> (\<forall>f\<in>set (findAllLoop P G root [] [entry]).
           prefix root f \<and> (suffix ''.d.ts'' f \<or> suffix ''.d.mts'' f) \<and> norm f = f)"
    by (rule findAllLoop_inv) simp_all
  then show ?thesis
    using assms by (simp add: findAllDtsFilesFromEntry_def)
qed

text \<open>
  C4 does not hold of the code. The root of the entry \<open>/d/a/index.d.ts\<close> is the
  directory \<open>/d/a\<close>, and its file set holds \<open>/d/ab/util.d.ts\<close>, a file of the
  directory \<open>/d/ab\<close> of another entry: \<open>normalizedFile.startsWith(root)\<close> compares
  the strings and asks for no separator after the root. The names exported by that
  file are then counted with the exports of the entry.
\<close>

theorem findAllDtsFilesFromEntry_sibling_directory:
  "map_of (entryRoots siblingGraph) ''/d/a/index.d.ts'' = Some ''/d/a''
   \<and> map_of (entryRoots siblingGraph) ''/d/ab/index.d.ts'' = Some ''/d/ab''
   \<and> findAllDtsFilesFromEntry (posix_api ''/w'') siblingGraph ''/d/a/index.d.ts''
       = [''/d/a/index.d.ts'', ''/d/ab/util.d.ts'']
   \<and> \<not> underDirectory ''/d/a'' ''/d/ab/util.d.ts''
   \<and> underDirectory ''/d/ab'' ''/d/ab/util.d.ts''
   \<and> getExportsForEntry siblingGraph ''/d/a/index.d.ts'' = [''U'']"
proof -
  have roots: "map_of (entryRoots siblingGraph) ''/d/a/index.d.ts'' = Some ''/d/a''"
    "map_of (entryRoots siblingGraph) ''/d/ab/index.d.ts'' = Some ''/d/ab''"
    by code_simp+
  have files: "findAllDtsFilesFromEntry (posix_api ''/w'') siblingGraph ''/d/a/index.d.ts''
       = [''/d/a/index.d.ts'', ''/d/ab/util.d.ts'']"
    by code_simp
  have dirs: "\<not> underDirectory ''/d/a'' ''/d/ab/util.d.ts''"
    "underDirectory ''/d/ab'' ''/d/ab/util.d.ts''"
    by (simp_all add: underDirectory_def suffix_def)
  have exports: "getExportsForEntry siblingGraph ''/d/a/index.d.ts'' = [''U'']"
    by code_simp
  show ?thesis
    by (intro conjI roots files dirs exports)
qed

section \<open>Properties of the specifier map\<close>

lemma registerEntry_skip:
  "alias ep = [] \<or> \<not> map_has (sourceFileCache G) (norm (dtsFile ep))
     \<Longrightarrow> registerEntry P G ep m = m"
  by (auto simp: registerEntry_def)

lemma registerEntry_other:
  assumes "k \<notin> set (registeredKeys P G ep)"
  shows "map_of (registerEntry P G ep m) k = map_of m k"
proof (cases "alias ep = [] \<or> \<not> map_has (sourceFileCache G) (norm (dtsFile ep))")
  case True
  then show ?thesis by (simp add: registerEntry_skip)
next
  case False
  then show ?thesis
    using assms
    by (auto simp: registeredKeys_def registerEntry_def Let_def map_of_map_set
        split: if_splits)
qed

lemma fold_registerEntry_other:
  "\<forall>e\<in>set eps. k \<notin> set (registeredKeys P G e)
     \<Longrightarrow> map_of (fold (registerEntry P G) eps m) k = map_of m k"
  by (induction eps arbitrary: m) (simp_all add: registerEntry_other)

lemma registerEntry_alias:
  assumes "alias ep \<noteq> []" and "map_has (sourceFileCache G) (norm (dtsFile ep))"
  shows "map_of (registerEntry P G ep m) (alias ep) = Some (norm (dtsFile ep))"
  using assms by (auto simp: registerEntry_def Let_def map_of_map_set)

lemma registerEntry_cleaned:
  assumes "alias ep \<noteq> []" and "map_has (sourceFileCache G) (norm (dtsFile ep))"
    and "cleanAlias (alias ep) \<noteq> [] \<or> p_basename P (norm (dtsFile ep)) = ''index.d.ts''"
  shows "map_of (registerEntry P G ep m) (cleanAlias (alias ep)) = Some (norm (dtsFile ep))"
  using assms by (auto simp: registerEntry_def Let_def map_of_map_set)

text \<open>
  C5, amended. For an entry with a non-empty alias and a loaded file, such that no
  later entry of the list registers its exact or its stripped alias:
  \<open>buildSpecifierMap\<close> maps the exact alias to the entry's file, and maps the stripped
  alias to it when the stripped alias is non-empty or the file is an \<open>index.d.ts\<close>.
  The directory form for an \<open>index.d.ts\<close> is the stripped alias itself.
\<close>

theorem buildSpecifierMap_registers:
  assumes "entryPoints = earlier @ ep # later"
    and "alias ep \<noteq> []" and "map_has (sourceFileCache G) (norm (dtsFile ep))"
    and "\<forall>e\<in>set later. alias ep \<notin> set (registeredKeys P G e)
           \<and> cleanAlias (alias ep) \<notin> set (registeredKeys P G e)"
  shows "map_of (specifierToDts (buildSpecifierMap P G entryPoints)) (alias ep)
           = Some (norm (dtsFile ep))
     \<and> (cleanAlias (alias ep) \<noteq> [] \<or> p_basename P (norm (dtsFile ep)) = ''index.d.ts''
          \<longrightarrow> map_of (specifierToDts (buildSpecifierMap P G entryPoints)) (cleanAlias (alias ep))
                = Some (norm (dtsFile ep)))"
proof -
  let ?m = "fold (registerEntry P G) earlier []"
  have run: "specifierToDts (buildSpecifierMap P G entryPoints)
      = fold (registerEntry P G) later (registerEntry P G ep ?m)"
    by (simp add: buildSpecifierMap_def assms(1))
  have "map_of (fold (registerEntry P G) later (registerEntry P G ep ?m)) (alias ep)
      = map_of (registerEntry P G ep ?m) (alias ep)"
    using assms(4) by (intro fold_registerEntry_other) simp
  then have a: "map_of (specifierToDts (buildSpecifierMap P G entryPoints)) (alias ep)
      = Some (norm (dtsFile ep))"
    by (simp add: run registerEntry_alias[OF assms(2,3)])
  have "map_of (fold (registerEntry P G) later (registerEntry P G ep ?m)) (cleanAlias (alias ep))
      = map_of (registerEntry P G ep ?m) (cleanAlias (alias ep))"
    using assms(4) by (intro fold_registerEntry_other) simp
  then have c: "map_of (specifierToDts (buildSpecifierMap P G entryPoints)) (cleanAlias (alias ep))
      = Some (norm (dtsFile ep))"
    if "cleanAlias (alias ep) \<noteq> [] \<or> p_basename P (norm (dtsFile ep)) = ''index.d.ts''"
    using that by (simp add: run registerEntry_cleaned[OF assms(2,3)])
  from a c show ?thesis by blast
qed

lemma collidingEntryPoints_map:
  "specifierToDts (buildSpecifierMap (posix_api ''/w'') exampleGraph collidingEntryPoints)
     = [(''*'', ''/dist/a/util.d.ts''), (''@pkg/a/*'', ''/dist/a/index.d.ts''),
        (''@pkg/a'', ''/dist/b/index.d.ts'')]"
  by code_simp

text \<open>
  C5, as stated, fails. With the four entries of \<open>collidingEntryPoints\<close>, all of
  loaded files: the stripped alias \<open>@pkg/a\<close> of the second entry ends up mapped to the
  file of the third entry, which registers the same key later; the stripped alias of
  \<open>*\<close> is empty and is not registered for a file that is no \<open>index.d.ts\<close>; and the
  entry with the empty alias is skipped, so nothing is registered for it.
\<close>

theorem buildSpecifierMap_three_forms_counterexample:
  "\<not> registersThreeForms (posix_api ''/w'') exampleGraph collidingEntryPoints
   \<and> map_has (sourceFileCache exampleGraph) (norm ''/dist/a/index.d.ts'')
   \<and> cleanAlias ''@pkg/a/*'' = ''@pkg/a''
   \<and> map_of (specifierToDts (buildSpecifierMap (posix_api ''/w'') exampleGraph
         collidingEntryPoints)) ''@pkg/a'' = Some ''/dist/b/index.d.ts''
   \<and> map_has (sourceFileCache exampleGraph) (norm ''/dist/a/util.d.ts'')
   \<and> cleanAlias ''*'' = []
   \<and> map_has (sourceFileCache exampleGraph) (norm ''/dist/b/index.d.ts'')
   \<and> map_of (specifierToDts (buildSpecifierMap (posix_api ''/w'') exampleGraph
         collidingEntryPoints)) [] = None"
proof -
  let ?m = "specifierToDts (buildSpecifierMap (posix_api ''/w'') exampleGraph
         collidingEntryPoints)"
  have loaded: "map_has (sourceFileCache exampleGraph) (norm ''/dist/a/index.d.ts'')"
    "map_has (sourceFileCache exampleGraph) (norm ''/dist/a/util.d.ts'')"
    "map_has (sourceFileCache exampleGraph) (norm ''/dist/b/index.d.ts'')"
    by code_simp+
  have cleaned: "cleanAlias ''@pkg/a/*'' = ''@pkg/a''" "cleanAlias ''*'' = []"
    by (simp_all add: cleanAlias_def stripTrailing_def)
  have a: "map_of ?m ''@pkg/a'' = Some ''/dist/b/index.d.ts''"
    and e: "map_of ?m [] = None"
    by (simp_all add: collidingEntryPoints_map)
  have "\<not> registersThreeForms (posix_api ''/w'') exampleGraph collidingEntryPoints"
  proof
    assume "registersThreeForms (posix_api ''/w'') exampleGraph collidingEntryPoints"
    moreover have "\<lparr> alias = ''@pkg/a/*'', dtsFile = ''/dist/a/index.d.ts'' \<rparr>
        \<in> set collidingEntryPoints"
      by (simp add: collidingEntryPoints_def)
    ultimately have "map_of ?m (cleanAlias ''@pkg/a/*'') = Some (norm ''/dist/a/index.d.ts'')"
      using loaded(1) unfolding registersThreeForms_def by fastforce
    then show False
      using a by (simp add: cleaned norm_def)
  qed
  with loaded cleaned a e show ?thesis by blast
qed

theorem buildSpecifierMap_registers_witness:
  "collidingEntryPoints
     = [\<lparr> alias = ''*'', dtsFile = ''/dist/a/util.d.ts'' \<rparr>,
        \<lparr> alias = ''@pkg/a/*'', dtsFile = ''/dist/a/index.d.ts'' \<rparr>]
       @ \<lparr> alias = ''@pkg/a'', dtsFile = ''/dist/b/index.d.ts'' \<rparr>
       # [\<lparr> alias = [], dtsFile = ''/dist/b/index.d.ts'' \<rparr>]
   \<and> map_has (sourceFileCache exampleGraph) (norm ''/dist/b/index.d.ts'')
   \<and> registeredKeys (posix_api ''/w'') exampleGraph
         \<lparr> alias = [], dtsFile = ''/dist/b/index.d.ts'' \<rparr> = []
   \<and> posix_basename (norm ''/dist/b/index.d.ts'') = ''index.d.ts''
   \<and> map_of (specifierToDts (buildSpecifierMap (posix_api ''/w'') exampleGraph
         collidingEntryPoints)) ''@pkg/a'' = Some ''/dist/b/index.d.ts''"
proof -
  let ?ep = "\<lparr> alias = ''@pkg/a'', dtsFile = ''/dist/b/index.d.ts'' \<rparr>"
  let ?last = "\<lparr> alias = [], dtsFile = ''/dist/b/index.d.ts'' \<rparr>"
  have split: "collidingEntryPoints
     = [\<lparr> alias = ''*'', dtsFile = ''/dist/a/util.d.ts'' \<rparr>,
        \<lparr> alias = ''@pkg/a/*'', dtsFile = ''/dist/a/index.d.ts'' \<rparr>] @ ?ep # [?last]"
    by (simp add: collidingEntryPoints_def)
  have al: "alias ?ep \<noteq> []" by simp
  have loaded: "map_has (sourceFileCache exampleGraph) (norm ''/dist/b/index.d.ts'')"
    by code_simp
  then have loaded': "map_has (sourceFileCache exampleGraph) (norm (dtsFile ?ep))" by simp
  have keys: "registeredKeys (posix_api ''/w'') exampleGraph ?last = []"
    by (simp add: registeredKeys_def registerEntry_def)
  then have later: "\<forall>e\<in>set [?last]. alias ?ep \<notin> set (registeredKeys (posix_api ''/w'') exampleGraph e)
           \<and> cleanAlias (alias ?ep) \<notin> set (registeredKeys (posix_api ''/w'') exampleGraph e)"
    by simp
  have base: "posix_basename (norm ''/dist/b/index.d.ts'') = ''index.d.ts''"
    by code_simp
  from buildSpecifierMap_registers[OF split al loaded' later]
  have "map_of (specifierToDts (buildSpecifierMap (posix_api ''/w'') exampleGraph
         collidingEntryPoints)) ''@pkg/a'' = Some ''/dist/b/index.d.ts''"
    by (simp add: norm_def)
  with split loaded keys base show ?thesis by blast
qed

section \<open>Properties of processExportDeclaration\<close>

lemma findE_uninitialised:
  "findE (\<lambda>f. case readBinding (None :: string option) of
                 Inl e \<Rightarrow> Inl e
               | Inr modulePath \<Rightarrow> Inr (sf_fileName f = modulePath)) files
     = (if files = [] then Inr None else Inl ReferenceError)"
  by (cases files) (simp_all add: readBinding_def)

text \<open>
  C6. For an export declaration with a named export clause and a same-package module
  specifier, \<open>processExportDeclaration\<close> reads \<open>modulePath\<close> before the statement that
  initialises it and does not complete normally: it throws a \<open>ReferenceError\<close> from the
  callback of \<open>find\<close>, or, when the program has no source file and the callback never
  runs, a \<open>TypeError\<close> at \<open>sourceFile!.fileName\<close>. This holds whatever the methods
  called later in the block would do.
\<close>

theorem processExportDeclaration_use_before_assignment:
  assumes "isSamePackage spec"
  shows "fst (processExportDeclaration resolveModulePath shouldProcessFile processFile
                (Some elements) (Some spec) B)
           = Some (if programSourceFiles B = [] then TypeError else ReferenceError)"
  using assms
  by (simp add: processExportDeclaration_def samePackageExport_def findE_uninitialised)

theorem processExportDeclaration_use_before_assignment_witness:
  "isSamePackage ''./util''
   \<and> fst (processExportDeclaration (\<lambda>spec fromFile. fromFile) (\<lambda>fileName. True)
            (\<lambda>sourceFile B. (None, B)) (Some [''u'']) (Some ''./util'')
            \<lparr> exportedSymbols = [], externalImports = [],
              programSourceFiles = exampleSourceFiles \<rparr>)
       = Some ReferenceError"
proof -
  have same: "isSamePackage ''./util''"
    by (simp add: isSamePackage_def)
  from processExportDeclaration_use_before_assignment[OF same]
  show ?thesis
    using same by (simp add: exampleSourceFiles_def)
qed

section \<open>Properties of getImportAlias\<close>


















end
